theory Spec2Isabelle
  imports Complex_Main
begin

section \<open>Tangents of a (Multi)Polygon from a point: the data model\<close>

text \<open>
  packages/turf-polygon-tangents/index.ts. A GeoJSON \<open>Position\<close> is read by the code
  only at its indices 0 and 1, so it is a pair (x, y). A JavaScript number is modelled as
  a real: rounding of the double arithmetic is not part of the model. A variable that may
  hold \<open>undefined\<close> (the result of reading an array out of range) is a
  \<open>Position option\<close>, and reading an index of \<open>undefined\<close> is the
  \<open>TypeError\<close> that JavaScript throws.
\<close>

type_synonym Position = "real \<times> real"

datatype error = TypeError

datatype geometry =
    Polygon "Position list list"
  | MultiPolygon "Position list list list"

text \<open>\<open>xs[i]\<close> of JavaScript: \<open>undefined\<close> out of range.\<close>

definition elemAt :: "'a list \<Rightarrow> nat \<Rightarrow> 'a option" where
  "elemAt xs i = (if i < length xs then Some (xs ! i) else None)"

section \<open>The orientation predicate and the comparators\<close>

definition isLeft :: "Position \<Rightarrow> Position \<Rightarrow> Position \<Rightarrow> real" where
  "isLeft point1 point2 point3 =
     (fst point2 - fst point1) * (snd point3 - snd point1) -
     (fst point3 - fst point1) * (snd point2 - snd point1)"

definition isAbove :: "Position \<Rightarrow> Position \<Rightarrow> Position \<Rightarrow> bool" where
  "isAbove point1 point2 point3 = (isLeft point1 point2 point3 > 0)"

definition isBelow :: "Position \<Rightarrow> Position \<Rightarrow> Position \<Rightarrow> bool" where
  "isBelow point1 point2 point3 = (isLeft point1 point2 point3 < 0)"

section \<open>The boundary sweep\<close>

text \<open>
  One iteration of the \<open>for\<close> loop of \<open>processPolygon\<close>, at index \<open>i\<close> (which the
  loop keeps below the length), on the loop's variables \<open>(eprev, rtan, ltan)\<close>.
  \<open>isBelow(ptCoords, currentCoords, rtan)\<close> reads \<open>rtan[1]\<close>, which throws when
  \<open>rtan\<close> is \<open>undefined\<close>; likewise \<open>isAbove\<close> on \<open>ltan\<close>.
\<close>

definition processPolygon_body ::
  "Position list \<Rightarrow> Position \<Rightarrow> nat \<Rightarrow> real \<times> Position option \<times> Position option
     \<Rightarrow> error + (real \<times> Position option \<times> Position option)" where
  "processPolygon_body polygonCoords ptCoords i st =
     (case st of (eprev, rtan, ltan) \<Rightarrow>
        let currentCoords = polygonCoords ! i;
            nextCoordPair = (if i = length polygonCoords - 1 then polygonCoords ! 0
                             else polygonCoords ! (i + 1));
            enext = isLeft currentCoords nextCoordPair ptCoords
        in if eprev \<le> 0 \<and> enext > 0 then
             (case rtan of
                None \<Rightarrow> Inl TypeError
              | Some r \<Rightarrow>
                  Inr (enext,
                       (if \<not> isBelow ptCoords currentCoords r then Some currentCoords else rtan),
                       ltan))
           else if eprev > 0 \<and> enext \<le> 0 then
             (case ltan of
                None \<Rightarrow> Inl TypeError
              | Some l \<Rightarrow>
                  Inr (enext, rtan,
                       (if \<not> isAbove ptCoords currentCoords l then Some currentCoords else ltan)))
           else Inr (enext, rtan, ltan))"

function processPolygon_loop ::
  "Position list \<Rightarrow> Position \<Rightarrow> nat \<Rightarrow> real \<times> Position option \<times> Position option
     \<Rightarrow> error + (real \<times> Position option \<times> Position option)" where
  "processPolygon_loop polygonCoords ptCoords i st =
     (if i < length polygonCoords then
        (case processPolygon_body polygonCoords ptCoords i st of
           Inl e \<Rightarrow> Inl e
         | Inr st' \<Rightarrow> processPolygon_loop polygonCoords ptCoords (i + 1) st')
      else Inr st)"
  by pat_completeness auto
termination
  by (relation "measure (\<lambda>(polygonCoords, ptCoords, i, st). length polygonCoords - i)") auto

declare processPolygon_loop.simps [simp del]

definition processPolygon ::
  "Position list \<Rightarrow> Position \<Rightarrow> real \<Rightarrow> Position option \<Rightarrow> Position option
     \<Rightarrow> error + (Position option \<times> Position option)" where
  "processPolygon polygonCoords ptCoords eprev rtan ltan =
     (case processPolygon_loop polygonCoords ptCoords 0 (eprev, rtan, ltan) of
        Inl e \<Rightarrow> Inl e
      | Inr (eprev', rtan', ltan') \<Rightarrow> Inr (rtan', ltan'))"

section \<open>The collaborators\<close>

text \<open>
  Modelled from the spec: \<open>explode\<close> (@turf/explode) is not among the sources. The spec's
  \<open>allVertices\<close>: the flattened vertex list, each polygon's outer ring before its holes,
  polygons in input order.
\<close>

definition explode :: "geometry \<Rightarrow> Position list" where
  "explode polygon =
     (case polygon of
        Polygon rings \<Rightarrow> concat rings
      | MultiPolygon polys \<Rightarrow> concat (map concat polys))"

text \<open>
  Modelled from the spec: \<open>calcBbox\<close> (@turf/bbox) is not among the sources. The spec's
  \<open>boundingBox\<close>: the axis-aligned extent (minX, minY, maxX, maxY) of the geometry's
  vertices. A geometry without a vertex has no extent (\<open>None\<close>); no point lies strictly
  inside it.
\<close>

definition calcBbox :: "geometry \<Rightarrow> (real \<times> real \<times> real \<times> real) option" where
  "calcBbox polygon =
     (case explode polygon of
        [] \<Rightarrow> None
      | v # vs \<Rightarrow>
          Some (fold min (map fst vs) (fst v), fold min (map snd vs) (snd v),
                fold max (map fst vs) (fst v), fold max (map snd vs) (snd v)))"

text \<open>
  Modelled from the spec: \<open>nearestPoint\<close> (@turf/nearest-point) is not among the sources.
  The spec's \<open>nearestVertex\<close>: the closest vertex by Euclidean distance and its position in
  the flattened order, ties broken by first occurrence. The scan compares squared
  distances, which order the vertices as the distances do (\<open>nearestPoint_euclidean\<close>
  below).
\<close>

record nearest =
  featureIndex :: nat
  coordinates :: Position

definition dist2 :: "Position \<Rightarrow> Position \<Rightarrow> real" where
  "dist2 p q = (fst p - fst q)\<^sup>2 + (snd p - snd q)\<^sup>2"

fun nearestScan :: "Position \<Rightarrow> nearest \<Rightarrow> nat \<Rightarrow> Position list \<Rightarrow> nearest" where
  "nearestScan pt best i [] = best"
| "nearestScan pt best i (v # vs) =
     (if dist2 pt v < dist2 pt (coordinates best)
      then nearestScan pt \<lparr>featureIndex = i, coordinates = v\<rparr> (i + 1) vs
      else nearestScan pt best (i + 1) vs)"

definition nearestPoint :: "Position \<Rightarrow> Position list \<Rightarrow> nearest option" where
  "nearestPoint pt vs =
     (case vs of
        [] \<Rightarrow> None
      | v # rest \<Rightarrow> Some (nearestScan pt \<lparr>featureIndex = 0, coordinates = v\<rparr> 1 rest))"

section \<open>The tangent resolver\<close>

text \<open>
  Lines 42 to 56: the nearest vertex is looked up when the point lies strictly inside the
  bounding box; \<open>nearest\<close> stays \<open>null\<close> (\<open>None\<close>) otherwise.
\<close>

definition nearestLookup :: "Position \<Rightarrow> geometry \<Rightarrow> nearest option" where
  "nearestLookup pointCoords polygon =
     (case calcBbox polygon of
        None \<Rightarrow> None
      | Some (minX, minY, maxX, maxY) \<Rightarrow>
          if fst pointCoords > minX \<and> fst pointCoords < maxX \<and>
             snd pointCoords > minY \<and> snd pointCoords < maxY
          then nearestPoint pointCoords (explode polygon)
          else None)"

definition nearestPtIndexOf :: "nearest option \<Rightarrow> nat" where
  "nearestPtIndexOf nrst = (case nrst of None \<Rightarrow> 0 | Some n \<Rightarrow> featureIndex n)"

text \<open>
  Lines 60 to 65, the seeds of the Polygon branch, on the outer ring \<open>polyCoords[0]\<close>.
\<close>

definition polygonSeed ::
  "Position list \<Rightarrow> Position \<Rightarrow> nearest option \<Rightarrow> Position option \<times> Position option" where
  "polygonSeed ring0 pointCoords nrst =
     (let nearestPtIndex = nearestPtIndexOf nrst;
          rtan = elemAt ring0 nearestPtIndex;
          ltan = elemAt ring0 0;
          ltan = (case nrst of
                    None \<Rightarrow> ltan
                  | Some n \<Rightarrow>
                      if snd (coordinates n) < snd pointCoords then elemAt ring0 nearestPtIndex
                      else ltan)
      in (rtan, ltan))"

text \<open>
  \<open>isLeft(ring[0], ring[ring.length - 1], pointCoords)\<close>, the seed of \<open>eprev\<close>: both
  reads are \<open>undefined\<close> on an empty ring, and \<open>isLeft\<close> throws on them.
\<close>

definition eprevSeed :: "Position list \<Rightarrow> Position \<Rightarrow> error + real" where
  "eprevSeed ring0 pointCoords =
     (case (elemAt ring0 0, elemAt ring0 (length ring0 - 1)) of
        (Some a, Some b) \<Rightarrow> Inr (isLeft a b pointCoords)
      | _ \<Rightarrow> Inl TypeError)"

text \<open>
  Lines 80 to 95, the two nested loops of the MultiPolygon branch over
  \<open>polyCoords[0]\<close>, here \<open>rings\<close>: the inner loop returns
  \<open>(closestVertex, verticesCounted, verticeFound)\<close>, the outer one
  \<open>(closestFeature, closestVertex)\<close>.
\<close>

function innerLoop :: "nat \<Rightarrow> nat \<Rightarrow> nat \<Rightarrow> nat \<Rightarrow> nat \<Rightarrow> nat \<times> nat \<times> bool" where
  "innerLoop len nearestPtIndex i2 closestVertex verticesCounted =
     (if i2 < len then
        (if verticesCounted = nearestPtIndex then (i2, verticesCounted, True)
         else innerLoop len nearestPtIndex (i2 + 1) i2 (verticesCounted + 1))
      else (closestVertex, verticesCounted, False))"
  by pat_completeness auto
termination
  by (relation "measure (\<lambda>(len, nearestPtIndex, i2, closestVertex, verticesCounted). len - i2)")
    auto

declare innerLoop.simps [simp del]

function outerLoop ::
  "Position list list \<Rightarrow> nat \<Rightarrow> nat \<Rightarrow> nat \<Rightarrow> nat \<Rightarrow> nat \<Rightarrow> nat \<times> nat" where
  "outerLoop rings nearestPtIndex i closestFeature closestVertex verticesCounted =
     (if i < length rings then
        (case innerLoop (length (rings ! i)) nearestPtIndex 0 closestVertex verticesCounted of
           (closestVertex', verticesCounted', verticeFound) \<Rightarrow>
             if verticeFound then (i, closestVertex')
             else outerLoop rings nearestPtIndex (i + 1) i closestVertex' verticesCounted')
      else (closestFeature, closestVertex))"
  by pat_completeness auto
termination
  by (relation "measure (\<lambda>(rings, nearestPtIndex, i, closestFeature, closestVertex,
         verticesCounted). length rings - i)") auto

declare outerLoop.simps [simp del]

text \<open>
  Lines 96 and 97: \<open>polyCoords[0][closestFeature][closestVertex]\<close>, where reading an
  index of an \<open>undefined\<close> ring throws.
\<close>

definition multiPolygonSeed :: "Position list list \<Rightarrow> nat \<Rightarrow> error + Position option" where
  "multiPolygonSeed rings nearestPtIndex =
     (case outerLoop rings nearestPtIndex 0 0 0 0 of
        (closestFeature, closestVertex) \<Rightarrow>
          (case elemAt rings closestFeature of
             None \<Rightarrow> Inl TypeError
           | Some ring \<Rightarrow> Inr (elemAt ring closestVertex)))"

text \<open>
  Lines 103 to 105: \<open>polyCoords.forEach\<close> sweeps \<open>ring[0]\<close> of every polygon with the
  same \<open>eprev\<close>; \<open>processPolygon\<close> reads the length of \<open>ring[0]\<close>, which throws when the
  polygon has no ring.
\<close>

fun forEach_processPolygon ::
  "Position list list list \<Rightarrow> Position \<Rightarrow> real \<Rightarrow> Position option \<times> Position option
     \<Rightarrow> error + (Position option \<times> Position option)" where
  "forEach_processPolygon [] pointCoords eprev tans = Inr tans"
| "forEach_processPolygon (ring # rest) pointCoords eprev tans =
     (case elemAt ring 0 of
        None \<Rightarrow> Inl TypeError
      | Some ring0 \<Rightarrow>
          (case processPolygon ring0 pointCoords eprev (fst tans) (snd tans) of
             Inl e \<Rightarrow> Inl e
           | Inr tans' \<Rightarrow> forEach_processPolygon rest pointCoords eprev tans'))"

text \<open>
  \<open>polygonTangents\<close>. The result is the pair \<open>(rtan, ltan)\<close> that the code hands to
  \<open>point\<close> and \<open>featureCollection\<close> (@turf/helpers, not among the sources).
\<close>

definition polygonTangents ::
  "Position \<Rightarrow> geometry \<Rightarrow> error + (Position option \<times> Position option)" where
  "polygonTangents pointCoords polygon =
     (let nrst = nearestLookup pointCoords polygon;
          nearestPtIndex = nearestPtIndexOf nrst
      in case polygon of
           Polygon polyCoords \<Rightarrow>
             (case elemAt polyCoords 0 of
                None \<Rightarrow> Inl TypeError
              | Some ring0 \<Rightarrow>
                  (case polygonSeed ring0 pointCoords nrst of
                     (rtan, ltan) \<Rightarrow>
                       (case eprevSeed ring0 pointCoords of
                          Inl e \<Rightarrow> Inl e
                        | Inr eprev \<Rightarrow> processPolygon ring0 pointCoords eprev rtan ltan)))
         | MultiPolygon polyCoords \<Rightarrow>
             (case elemAt polyCoords 0 of
                None \<Rightarrow> Inl TypeError
              | Some rings \<Rightarrow>
                  (case multiPolygonSeed rings nearestPtIndex of
                     Inl e \<Rightarrow> Inl e
                   | Inr seed \<Rightarrow>
                       (case elemAt rings 0 of
                          None \<Rightarrow> Inl TypeError
                        | Some ring0 \<Rightarrow>
                            (case eprevSeed ring0 pointCoords of
                               Inl e \<Rightarrow> Inl e
                             | Inr eprev \<Rightarrow>
                                 forEach_processPolygon polyCoords pointCoords eprev
                                   (seed, seed))))))"

section \<open>The specification's notions\<close>

text \<open>
  The sweep as the specification words it: the edges of a ring in order, edge i from
  vertex i to vertex i + 1 and the last edge wrapping to vertex 0; for each edge
  (current, next) the orientation \<open>enext\<close> of the reference point, the two guarded
  replacements, then \<open>eprev = enext\<close>.
\<close>

definition ringEdges :: "Position list \<Rightarrow> (Position \<times> Position) list" where
  "ringEdges ring = zip ring (rotate1 ring)"

fun sweepEdges ::
  "Position \<Rightarrow> (Position \<times> Position) list \<Rightarrow> real \<Rightarrow> Position \<Rightarrow> Position
     \<Rightarrow> Position \<times> Position" where
  "sweepEdges referencePoint [] eprev rtan ltan = (rtan, ltan)"
| "sweepEdges referencePoint ((current, next) # edges) eprev rtan ltan =
     (let enext = isLeft current next referencePoint
      in if eprev \<le> 0 \<and> enext > 0 then
           sweepEdges referencePoint edges enext
             (if isBelow referencePoint current rtan then rtan else current) ltan
         else if eprev > 0 \<and> enext \<le> 0 then
           sweepEdges referencePoint edges enext rtan
             (if isAbove referencePoint current ltan then ltan else current)
         else sweepEdges referencePoint edges enext rtan ltan)"

definition sweepRing ::
  "Position list \<Rightarrow> Position \<Rightarrow> real \<Rightarrow> Position \<Rightarrow> Position \<Rightarrow> Position \<times> Position" where
  "sweepRing ring referencePoint eprev rtan ltan =
     sweepEdges referencePoint (ringEdges ring) eprev rtan ltan"


text \<open>
  The reference point lies strictly inside the bounding box of the geometry on both axes.
\<close>

definition strictlyInsideBbox :: "Position \<Rightarrow> geometry \<Rightarrow> bool" where
  "strictlyInsideBbox referencePoint polygon =
     (case calcBbox polygon of
        None \<Rightarrow> False
      | Some (minX, minY, maxX, maxY) \<Rightarrow>
          minX < fst referencePoint \<and> fst referencePoint < maxX \<and>
          minY < snd referencePoint \<and> snd referencePoint < maxY)"

text \<open>The sweep of the outer ring of one polygon of a MultiPolygon, on a running result.\<close>

definition sweepOuterRing ::
  "Position \<Rightarrow> real \<Rightarrow> error + (Position option \<times> Position option) \<Rightarrow> Position list list
     \<Rightarrow> error + (Position option \<times> Position option)" where
  "sweepOuterRing referencePoint eprev acc poly =
     (case acc of
        Inl e \<Rightarrow> Inl e
      | Inr (rtan, ltan) \<Rightarrow>
          (case poly of
             [] \<Rightarrow> Inl TypeError
           | outer # holes \<Rightarrow> processPolygon outer referencePoint eprev rtan ltan))"













text \<open>
  A real-valued key orders the points of a set as the orientation predicate orders them
  around the reference point.
\<close>

definition angularKey :: "Position \<Rightarrow> (Position \<Rightarrow> real) \<Rightarrow> Position set \<Rightarrow> bool" where
  "angularKey referencePoint k V =
     (\<forall>a\<in>V. \<forall>b\<in>V. (0 < isLeft referencePoint a b) = (k a < k b)
                    \<and> (isLeft referencePoint a b < 0) = (k b < k a))"


text \<open>The example geometries of the scenarios.\<close>

definition square :: "Position list" where
  "square = [(0, 0), (4, 0), (4, 4), (0, 4), (0, 0)]"

definition holedPolygonCW :: geometry where
  "holedPolygonCW =
     Polygon [[(0, 0), (0, 10), (10, 10), (10, 0), (0, 0)],
              [(4, 4), (7, 4), (7, 7), (4, 7), (4, 4)]]"

definition twoSquares :: geometry where
  "twoSquares =
     MultiPolygon [[[(0, 0), (4, 0), (4, 4), (0, 4), (0, 0)]],
                   [[(10, 10), (14, 10), (14, 14), (10, 14), (10, 10)]]]"

section \<open>The orientation predicate\<close>

text \<open>
  C7: for all points, \<open>isLeft\<close> returns
  (p2.x - p1.x) * (p3.y - p1.y) - (p3.x - p1.x) * (p2.y - p1.y); \<open>isAbove\<close> holds exactly
  when this value is strictly positive and \<open>isBelow\<close> exactly when it is strictly
  negative, so a collinear triple (value zero) is neither above nor below.
\<close>

theorem orientation_formula:
  "isLeft (x1, y1) (x2, y2) (x3, y3) = (x2 - x1) * (y3 - y1) - (x3 - x1) * (y2 - y1)
   \<and> isAbove (x1, y1) (x2, y2) (x3, y3) = ((x2 - x1) * (y3 - y1) - (x3 - x1) * (y2 - y1) > 0)
   \<and> isBelow (x1, y1) (x2, y2) (x3, y3) = ((x2 - x1) * (y3 - y1) - (x3 - x1) * (y2 - y1) < 0)
   \<and> ((x2 - x1) * (y3 - y1) - (x3 - x1) * (y2 - y1) = 0
        \<longrightarrow> \<not> isAbove (x1, y1) (x2, y2) (x3, y3) \<and> \<not> isBelow (x1, y1) (x2, y2) (x3, y3))"
  by (simp add: isLeft_def isAbove_def isBelow_def)

theorem orientation_formula_witness:
  "isLeft (0, 0) (2, 2) (4, 4) = (2 - 0) * (4 - 0) - (4 - 0) * (2 - 0)
   \<and> (2 - 0) * (4 - 0) - (4 - 0) * (2 - 0) = (0::real)
   \<and> \<not> isAbove (0, 0) (2, 2) (4, 4) \<and> \<not> isBelow (0, 0) (2, 2) (4, 4)"
  using orientation_formula [of 0 0 2 2 4 4] by simp

section \<open>The modelled collaborators meet their contracts\<close>

text \<open>
  The nearest vertex is a vertex of the list at the index returned, no vertex is closer
  (in squared distance, hence in Euclidean distance), and every vertex before it is
  strictly farther: ties go to the first occurrence. The bounding box is the extent of the
  vertices on each axis.
\<close>

lemma nearestScan_invariant:
  assumes "length pre = i" and "featureIndex best < i"
    and "pre ! featureIndex best = coordinates best"
    and "\<forall>j<i. dist2 pt (coordinates best) \<le> dist2 pt (pre ! j)"
    and "\<forall>j<featureIndex best. dist2 pt (coordinates best) < dist2 pt (pre ! j)"
  shows "featureIndex (nearestScan pt best i vs) < length (pre @ vs)
     \<and> (pre @ vs) ! featureIndex (nearestScan pt best i vs)
         = coordinates (nearestScan pt best i vs)
     \<and> (\<forall>j<length (pre @ vs).
           dist2 pt (coordinates (nearestScan pt best i vs)) \<le> dist2 pt ((pre @ vs) ! j))
     \<and> (\<forall>j<featureIndex (nearestScan pt best i vs).
           dist2 pt (coordinates (nearestScan pt best i vs)) < dist2 pt ((pre @ vs) ! j))"
  using assms
proof (induction vs arbitrary: pre best i)
  case Nil
  then show ?case by simp
next
  case (Cons v vs)
  show ?case
  proof (cases "dist2 pt v < dist2 pt (coordinates best)")
    case True
    let ?best = "\<lparr>featureIndex = i, coordinates = v\<rparr>"
    have "length (pre @ [v]) = i + 1" "featureIndex ?best < i + 1"
      "(pre @ [v]) ! featureIndex ?best = coordinates ?best"
      using Cons.prems(1) by (auto simp: nth_append)
    moreover have "\<forall>j<i + 1. dist2 pt (coordinates ?best) \<le> dist2 pt ((pre @ [v]) ! j)"
      using Cons.prems(1,4) True by (fastforce simp: nth_append less_Suc_eq)
    moreover have "\<forall>j<featureIndex ?best.
        dist2 pt (coordinates ?best) < dist2 pt ((pre @ [v]) ! j)"
      using Cons.prems(1,4) True by (fastforce simp: nth_append)
    ultimately show ?thesis
      using Cons.IH [of "pre @ [v]" "i + 1" ?best] True by simp
  next
    case False
    have "length (pre @ [v]) = i + 1" "featureIndex best < i + 1"
      "(pre @ [v]) ! featureIndex best = coordinates best"
      using Cons.prems(1,2,3) by (simp_all add: nth_append)
    moreover have "\<forall>j<i + 1. dist2 pt (coordinates best) \<le> dist2 pt ((pre @ [v]) ! j)"
      using Cons.prems(1,4) False by (auto simp: nth_append less_Suc_eq)
    moreover have "\<forall>j<featureIndex best.
        dist2 pt (coordinates best) < dist2 pt ((pre @ [v]) ! j)"
      using Cons.prems(1,2,5) by (auto simp: nth_append)
    ultimately show ?thesis
      using Cons.IH [of "pre @ [v]" "i + 1" best] False by simp
  qed
qed

lemma nearestPoint_contract:
  assumes "nearestPoint pt vs = Some n"
  shows "featureIndex n < length vs \<and> vs ! featureIndex n = coordinates n
     \<and> (\<forall>j<length vs. dist2 pt (coordinates n) \<le> dist2 pt (vs ! j))
     \<and> (\<forall>j<featureIndex n. dist2 pt (coordinates n) < dist2 pt (vs ! j))"
proof (cases vs)
  case Nil
  then show ?thesis
    using assms by (simp add: nearestPoint_def)
next
  case (Cons v rest)
  then have n: "n = nearestScan pt \<lparr>featureIndex = 0, coordinates = v\<rparr> 1 rest"
    using assms by (simp add: nearestPoint_def)
  show ?thesis
    using nearestScan_invariant [of "[v]" 1 "\<lparr>featureIndex = 0, coordinates = v\<rparr>" pt rest]
    by (simp add: n Cons)
qed

lemma nearestPoint_euclidean:
  assumes "nearestPoint pt vs = Some n" and "v \<in> set vs"
  shows "sqrt (dist2 pt (coordinates n)) \<le> sqrt (dist2 pt v)"
proof -
  obtain j where "j < length vs" and "vs ! j = v"
    using assms(2) by (auto simp: in_set_conv_nth)
  then have "dist2 pt (coordinates n) \<le> dist2 pt v"
    using nearestPoint_contract [OF assms(1)] by blast
  then show ?thesis by simp
qed


section \<open>The sweep refines its specification\<close>

lemma ringEdges_length: "length (ringEdges ring) = length ring"
  by (simp add: ringEdges_def)

lemma ringEdges_nth:
  assumes "i < length ring"
  shows "ringEdges ring ! i =
     (ring ! i, if i = length ring - 1 then ring ! 0 else ring ! (i + 1))"
proof -
  have "rotate1 ring ! i = ring ! (Suc i mod length ring)"
    using assms by (rule nth_rotate1)
  moreover have "Suc i mod length ring = (if i = length ring - 1 then 0 else i + 1)"
    using assms by (auto simp: mod_Suc)
  ultimately show ?thesis
    using assms by (simp add: ringEdges_def)
qed

lemma ringEdges_drop:
  assumes "i < length ring"
  shows "drop i (ringEdges ring) =
     (ring ! i, if i = length ring - 1 then ring ! 0 else ring ! (i + 1))
       # drop (Suc i) (ringEdges ring)"
  using assms Cons_nth_drop_Suc [of i "ringEdges ring"]
  by (simp add: ringEdges_length ringEdges_nth)

lemma processPolygon_loop_step:
  "i < length ring \<Longrightarrow>
   processPolygon_loop ring pt i st =
     (case processPolygon_body ring pt i st of
        Inl e \<Rightarrow> Inl e
      | Inr st' \<Rightarrow> processPolygon_loop ring pt (i + 1) st')"
  by (subst processPolygon_loop.simps) simp

lemma processPolygon_loop_exit:
  "\<not> i < length ring \<Longrightarrow> processPolygon_loop ring pt i st = Inr st"
  by (subst processPolygon_loop.simps) simp

lemma processPolygon_body_Some:
  "processPolygon_body ring pt i (e, Some r, Some l) =
     (let current = ring ! i;
          enext = isLeft current
            (if i = length ring - 1 then ring ! 0 else ring ! (i + 1)) pt
      in Inr (enext,
           Some (if e \<le> 0 \<and> enext > 0 \<and> \<not> isBelow pt current r then current else r),
           Some (if \<not> (e \<le> 0 \<and> enext > 0) \<and> e > 0 \<and> enext \<le> 0
                    \<and> \<not> isAbove pt current l then current else l)))"
  by (simp add: processPolygon_body_def Let_def)

lemma sweepEdges_Cons:
  "sweepEdges pt ((current, next) # edges) e r l =
     (let enext = isLeft current next pt
      in sweepEdges pt edges enext
           (if e \<le> 0 \<and> enext > 0 \<and> \<not> isBelow pt current r then current else r)
           (if \<not> (e \<le> 0 \<and> enext > 0) \<and> e > 0 \<and> enext \<le> 0
               \<and> \<not> isAbove pt current l then current else l))"
  by (simp add: Let_def)

lemma processPolygon_loop_refines:
  "\<exists>e'. processPolygon_loop ring pt i (e, Some r, Some l) =
     Inr (e', Some (fst (sweepEdges pt (drop i (ringEdges ring)) e r l)),
              Some (snd (sweepEdges pt (drop i (ringEdges ring)) e r l)))"
proof (induction "length ring - i" arbitrary: i e r l)
  case 0
  then show ?case
    by (simp add: processPolygon_loop_exit ringEdges_length)
next
  case (Suc k)
  then have i: "i < length ring" and k: "k = length ring - (i + 1)"
    by simp_all
  define current where "current = ring ! i"
  define enext where
    "enext = isLeft current (if i = length ring - 1 then ring ! 0 else ring ! (i + 1)) pt"
  define r' where
    "r' = (if e \<le> 0 \<and> enext > 0 \<and> \<not> isBelow pt current r then current else r)"
  define l' where
    "l' = (if \<not> (e \<le> 0 \<and> enext > 0) \<and> e > 0 \<and> enext \<le> 0
              \<and> \<not> isAbove pt current l then current else l)"
  have loop: "processPolygon_loop ring pt i (e, Some r, Some l) =
      processPolygon_loop ring pt (i + 1) (enext, Some r', Some l')"
    by (simp only: processPolygon_loop_step [OF i] processPolygon_body_Some Let_def
        current_def enext_def r'_def l'_def sum.case)
  have spec: "sweepEdges pt (drop i (ringEdges ring)) e r l =
      sweepEdges pt (drop (i + 1) (ringEdges ring)) enext r' l'"
    by (simp only: ringEdges_drop [OF i] sweepEdges_Cons Let_def
        current_def enext_def r'_def l'_def Suc_eq_plus1)
  show ?case
    using Suc.hyps(1) [OF k, of enext r' l'] by (simp only: loop spec)
qed

text \<open>
  C2: for every ring, reference point, incoming \<open>eprev\<close> and seed candidates, the sweep
  processes the edges in order with \<open>enext\<close> the orientation of the reference point to the
  edge; when \<open>eprev \<le> 0\<close> and \<open>enext > 0\<close> it replaces \<open>rtan\<close> with the current vertex
  unless \<open>isBelow\<close> holds of the old one, when \<open>eprev > 0\<close> and \<open>enext \<le> 0\<close> it replaces
  \<open>ltan\<close> unless \<open>isAbove\<close> holds, otherwise it changes neither; \<open>eprev\<close> becomes
  \<open>enext\<close>, and the candidates after the last edge are returned: \<open>processPolygon\<close>
  computes \<open>sweepRing\<close>.
\<close>

theorem sweep_as_specified:
  "processPolygon ring pt eprev (Some rtan) (Some ltan) =
     Inr (map_prod Some Some (sweepRing ring pt eprev rtan ltan))"
proof -
  obtain e' where "processPolygon_loop ring pt 0 (eprev, Some rtan, Some ltan) =
     Inr (e', Some (fst (sweepRing ring pt eprev rtan ltan)),
              Some (snd (sweepRing ring pt eprev rtan ltan)))"
    using processPolygon_loop_refines [of ring pt 0 eprev rtan ltan]
    by (auto simp: sweepRing_def)
  then show ?thesis
    by (simp add: processPolygon_def map_prod_def split_beta)
qed

section \<open>Unfolding for evaluation\<close>

lemmas resolver_defs =
  polygonTangents_def nearestLookup_def calcBbox_def explode_def nearestPtIndexOf_def
  elemAt_def polygonSeed_def eprevSeed_def multiPolygonSeed_def nearestPoint_def dist2_def

lemmas sweep_defs =
  processPolygon_def processPolygon_loop.simps processPolygon_body_def
  isLeft_def isAbove_def isBelow_def Let_def

section \<open>The closing edge of a ring\<close>

lemma isLeft_same [simp]: "isLeft p p q = 0"
  by (simp add: isLeft_def)

text \<open>
  C5, as the code has it: for every ring whose stored last vertex repeats its first, every
  reference point and every state on entry, the closing edge (the last iteration, from the
  repeated vertex to vertex 0) has orientation zero and never replaces \<open>rtan\<close>; it
  replaces \<open>ltan\<close> with the first vertex exactly when the incoming \<open>eprev\<close> is
  positive and \<open>isAbove(referencePoint, first vertex, ltan)\<close> does not hold, because the
  guard of the left candidate is \<open>eprev > 0 && enext <= 0\<close>.
\<close>

theorem closing_edge:
  assumes "ring \<noteq> []" and "last ring = hd ring"
  shows "processPolygon_body ring pt (length ring - 1) (eprev, Some rtan, Some ltan) =
     Inr (0, Some rtan,
          Some (if eprev > 0 \<and> \<not> isAbove pt (hd ring) ltan then hd ring else ltan))"
proof -
  have "ring ! (length ring - 1) = last ring"
    using assms(1) by (simp add: last_conv_nth)
  moreover have "ring ! 0 = hd ring"
    using assms(1) by (simp add: hd_conv_nth)
  ultimately show ?thesis
    using assms(2) by (simp add: processPolygon_body_Some Let_def)
qed

theorem closing_edge_witness:
  "processPolygon_body [(8, 8), (0, 8), (0, 0), (8, 0), (8, 8)] (2, 3) 4
       (48, Some (0, 0), Some (0, 0)) = Inr (0, Some (0, 0), Some (8, 8))"
  using closing_edge [of "[(8, 8), (0, 8), (0, 0), (8, 0), (8, 8)]" "(2, 3)" 48 "(0, 0)" "(0, 0)"]
  by (simp add: isAbove_def isLeft_def eval_nat_numeral)

text \<open>
  C5 as stated fails: in the sweep of the closed square (8,8), (0,8), (0,0), (8,0), (8,8)
  from (2,3) with both seeds (0,0), the state on entry to the closing edge is
  \<open>eprev = 48\<close>, \<open>ltan = (0,0)\<close>, and the closing edge replaces \<open>ltan\<close> with (8,8),
  which is the left tangent that \<open>polygonTangents\<close> returns.
\<close>

theorem closing_edge_updates_ltan:
  "last [(8, 8), (0, 8), (0, 0), (8, 0), (8, 8) :: Position]
     = hd [(8, 8), (0, 8), (0, 0), (8, 0), (8, 8)]
   \<and> processPolygon_loop [(8, 8), (0, 8), (0, 0), (8, 0), (8, 8)] (2, 3) 0
        (0, Some (0, 0), Some (0, 0))
     = processPolygon_loop [(8, 8), (0, 8), (0, 0), (8, 0), (8, 8)] (2, 3) 4
        (48, Some (0, 0), Some (0, 0))
   \<and> processPolygon_body [(8, 8), (0, 8), (0, 0), (8, 0), (8, 8)] (2, 3) 4
        (48, Some (0, 0), Some (0, 0)) = Inr (0, Some (0, 0), Some (8, 8))
   \<and> polygonTangents (2, 3) (Polygon [[(8, 8), (0, 8), (0, 0), (8, 0), (8, 8)]])
     = Inr (Some (0, 0), Some (8, 8))"
  by (simp add: resolver_defs sweep_defs)

section \<open>The seeds of the Polygon branch\<close>

lemma elemAt_0: "elemAt xs 0 = (case xs of [] \<Rightarrow> None | x # _ \<Rightarrow> Some x)"
  by (simp add: elemAt_def split: list.splits)

lemma eprevSeed_nonempty:
  "ring0 \<noteq> [] \<Longrightarrow> eprevSeed ring0 pt = Inr (isLeft (hd ring0) (last ring0) pt)"
  by (simp add: eprevSeed_def elemAt_def hd_conv_nth last_conv_nth)

lemma nearestLookup_inside:
  "nearestLookup pt g =
     (if strictlyInsideBbox pt g then nearestPoint pt (explode g) else None)"
  by (auto simp: nearestLookup_def strictlyInsideBbox_def split: option.splits)

lemma nearestPoint_nonempty: "vs \<noteq> [] \<Longrightarrow> \<exists>n. nearestPoint pt vs = Some n"
  by (cases vs) (simp_all add: nearestPoint_def)

text \<open>
  C4: for a Polygon (with a vertex in its outer ring), the nearest vertex is looked up
  exactly when the reference point lies strictly inside the bounding box; \<open>rtan\<close> is
  seeded with the outer ring's vertex at the nearest index, or with the first vertex when
  there was no lookup; \<open>ltan\<close> with the first vertex, except that after a lookup whose
  nearest vertex has a y-coordinate strictly below the reference point's it is the vertex
  at the nearest index too; \<open>eprev\<close> with the orientation of the reference point to
  (first vertex, last stored vertex); and the result is the sweep of the outer ring from
  these seeds.
\<close>

theorem polygon_seeding:
  assumes "ring0 \<noteq> []"
  shows "\<exists>n. nearestPoint pt (explode (Polygon (ring0 # holes))) = Some n
     \<and> nearestLookup pt (Polygon (ring0 # holes)) =
         (if strictlyInsideBbox pt (Polygon (ring0 # holes)) then Some n else None)
     \<and> polygonTangents pt (Polygon (ring0 # holes)) =
         processPolygon ring0 pt (isLeft (hd ring0) (last ring0) pt)
           (if strictlyInsideBbox pt (Polygon (ring0 # holes))
            then elemAt ring0 (featureIndex n) else Some (hd ring0))
           (if strictlyInsideBbox pt (Polygon (ring0 # holes))
               \<and> snd (coordinates n) < snd pt
            then elemAt ring0 (featureIndex n) else Some (hd ring0))"
proof -
  have "explode (Polygon (ring0 # holes)) \<noteq> []"
    using assms by (simp add: explode_def)
  then obtain n where n: "nearestPoint pt (explode (Polygon (ring0 # holes))) = Some n"
    using nearestPoint_nonempty by blast
  have hd0: "elemAt ring0 0 = Some (hd ring0)"
    using assms by (simp add: elemAt_def hd_conv_nth)
  show ?thesis
    using n hd0
    by (intro exI [of _ n])
      (simp add: polygonTangents_def nearestLookup_inside elemAt_0 [of "ring0 # holes"]
        eprevSeed_nonempty [OF assms] polygonSeed_def nearestPtIndexOf_def Let_def)
qed

theorem polygon_seeding_witness:
  "square \<noteq> []
   \<and> nearestLookup (3, 1) (Polygon (square # [])) = Some \<lparr>featureIndex = 1, coordinates = (4, 0)\<rparr>
   \<and> strictlyInsideBbox (3, 1) (Polygon (square # []))
   \<and> polygonTangents (3, 1) (Polygon (square # [])) =
       processPolygon square (3, 1) (isLeft (hd square) (last square) (3, 1))
         (Some (4, 0)) (Some (4, 0))"
  using polygon_seeding [of square "(3, 1)" "[]"]
  by (simp add: square_def strictlyInsideBbox_def calcBbox_def explode_def nearestPoint_def
      dist2_def elemAt_def)

section \<open>The sweeps of the MultiPolygon branch\<close>

lemma sweepOuterRing_Inl: "sweepOuterRing pt e (Inl err) poly = Inl err"
  by (simp add: sweepOuterRing_def)

lemma sweepOuterRing_Inr:
  "sweepOuterRing pt e (Inr tans) poly =
     (case elemAt poly 0 of
        None \<Rightarrow> Inl TypeError
      | Some outer \<Rightarrow> processPolygon outer pt e (fst tans) (snd tans))"
  by (simp add: sweepOuterRing_def elemAt_0 split_beta split: list.splits)

lemma foldl_sweepOuterRing_Inl:
  "foldl (sweepOuterRing pt e) (Inl err) polys = Inl err"
  by (induction polys) (simp_all add: sweepOuterRing_Inl)

lemma forEach_processPolygon_foldl:
  "forEach_processPolygon polys pt e tans = foldl (sweepOuterRing pt e) (Inr tans) polys"
proof (induction polys arbitrary: tans)
  case Nil
  then show ?case by simp
next
  case (Cons poly polys)
  show ?case
  proof (cases "sweepOuterRing pt e (Inr tans) poly")
    case (Inl err)
    then show ?thesis
      by (auto simp: sweepOuterRing_Inr foldl_sweepOuterRing_Inl split: option.splits)
  next
    case (Inr tans')
    then show ?thesis
      using Cons.IH [of tans']
      by (auto simp: sweepOuterRing_Inr split: option.splits)
  qed
qed

text \<open>
  C6: for a MultiPolygon, \<open>eprev\<close> is seeded once, with the orientation of the reference
  point to (first vertex, last stored vertex) of the first polygon's outer ring; the sweep
  runs once over the outer ring of every polygon in input order, and the sweep of each ring
  starts from the \<open>rtan\<close> and \<open>ltan\<close> of the sweep before it and from that same seed of
  \<open>eprev\<close>, not from the orientation that the sweep before it ended with.
\<close>

theorem multipolygon_sweeps:
  assumes "ring0 \<noteq> []"
  shows "polygonTangents pt (MultiPolygon ((ring0 # holes0) # rest)) =
     (case multiPolygonSeed (ring0 # holes0)
             (nearestPtIndexOf (nearestLookup pt (MultiPolygon ((ring0 # holes0) # rest)))) of
        Inl e \<Rightarrow> Inl e
      | Inr seed \<Rightarrow>
          foldl (sweepOuterRing pt (isLeft (hd ring0) (last ring0) pt)) (Inr (seed, seed))
            ((ring0 # holes0) # rest))"
  by (simp add: polygonTangents_def elemAt_0 eprevSeed_nonempty [OF assms]
      forEach_processPolygon_foldl Let_def split: sum.splits)

text \<open>
  At two open triangles seen from (8,3): the sweep of the first ends with \<open>eprev = 32\<close>,
  the sweep of the second starts from the seed -32 again, and keeps the left tangent
  (4,0) where a start from 32 would have chosen (6,-10).
\<close>

theorem multipolygon_sweeps_witness:
  "[(0, 0), (4, 0), (0, 4)] \<noteq> ([] :: Position list)
   \<and> processPolygon_loop [(0, 0), (4, 0), (0, 4)] (8, 3) 0 (- 32, Some (0, 0), Some (0, 0))
       = Inr (32, Some (0, 4), Some (4, 0))
   \<and> polygonTangents (8, 3)
        (MultiPolygon [[[(0, 0), (4, 0), (0, 4)]], [[(6, - 10), (4, - 10), (6, - 8)]]])
       = processPolygon [(6, - 10), (4, - 10), (6, - 8)] (8, 3) (- 32) (Some (0, 4)) (Some (4, 0))
   \<and> processPolygon [(6, - 10), (4, - 10), (6, - 8)] (8, 3) (- 32) (Some (0, 4)) (Some (4, 0))
       = Inr (Some (0, 4), Some (4, 0))
   \<and> processPolygon [(6, - 10), (4, - 10), (6, - 8)] (8, 3) 32 (Some (0, 4)) (Some (4, 0))
       = Inr (Some (0, 4), Some (6, - 10))"
  using multipolygon_sweeps [of "[(0, 0), (4, 0), (0, 4)]" "(8, 3)" "[]"
      "[[[(6, - 10), (4, - 10), (6, - 8)]]]"]
  by (simp add: resolver_defs sweep_defs sweepOuterRing_def outerLoop.simps innerLoop.simps)

section \<open>Where the tangents are vertices\<close>

text \<open>
  The sweep returns, for each label, its seed or a vertex of the ring. So both tangents
  are vertices of the geometry for a Polygon whose nearest index lies within the outer
  ring (in particular a Polygon without holes), and for a MultiPolygon in which every
  polygon has a non-empty outer ring and the first polygon has no empty ring.
\<close>

lemma sweepEdges_member:
  "fst (sweepEdges pt es e r l) \<in> insert r (fst ` set es)
   \<and> snd (sweepEdges pt es e r l) \<in> insert l (fst ` set es)"
proof (induction es arbitrary: e r l)
  case Nil
  then show ?case by simp
next
  case (Cons edge es)
  obtain current nxt where edge: "edge = (current, nxt)"
    by (cases edge) auto
  define enext where "enext = isLeft current nxt pt"
  define r1 where
    "r1 = (if e \<le> 0 \<and> enext > 0 \<and> \<not> isBelow pt current r then current else r)"
  define l1 where
    "l1 = (if \<not> (e \<le> 0 \<and> enext > 0) \<and> e > 0 \<and> enext \<le> 0
              \<and> \<not> isAbove pt current l then current else l)"
  have step: "sweepEdges pt (edge # es) e r l = sweepEdges pt es enext r1 l1"
    by (simp only: edge sweepEdges_Cons Let_def enext_def r1_def l1_def)
  have "r1 \<in> {r, current}" and "l1 \<in> {l, current}"
    by (simp_all add: r1_def l1_def)
  moreover have "fst edge = current"
    by (simp add: edge)
  ultimately show ?case
    unfolding step using Cons.IH [of enext r1 l1] by auto
qed

lemma ringEdges_current: "fst ` set (ringEdges ring) \<subseteq> set ring"
  by (auto simp: ringEdges_def dest: set_zip_leftD)

lemma processPolygon_member:
  "\<exists>r' l'. processPolygon ring pt e (Some r) (Some l) = Inr (Some r', Some l')
     \<and> r' \<in> insert r (set ring) \<and> l' \<in> insert l (set ring)"
proof -
  obtain e' where "processPolygon_loop ring pt 0 (e, Some r, Some l) =
     Inr (e', Some (fst (sweepEdges pt (ringEdges ring) e r l)),
              Some (snd (sweepEdges pt (ringEdges ring) e r l)))"
    using processPolygon_loop_refines [of ring pt 0 e r l] by auto
  then show ?thesis
    using sweepEdges_member [of pt "ringEdges ring" e r l] ringEdges_current [of ring]
    by (auto simp: processPolygon_def)
qed

lemma polygon_tangents_are_vertices:
  assumes "ring0 \<noteq> []"
    and "nearestPtIndexOf (nearestLookup pt (Polygon (ring0 # holes))) < length ring0"
  shows "\<exists>r l. polygonTangents pt (Polygon (ring0 # holes)) = Inr (Some r, Some l)
     \<and> r \<in> set ring0 \<and> l \<in> set ring0"
proof -
  define idx where "idx = nearestPtIndexOf (nearestLookup pt (Polygon (ring0 # holes)))"
  have at_idx: "elemAt ring0 idx = Some (ring0 ! idx)" and in_idx: "ring0 ! idx \<in> set ring0"
    using assms(2) by (simp_all add: idx_def elemAt_def)
  have at_0: "elemAt ring0 0 = Some (ring0 ! 0)" and in_0: "ring0 ! 0 \<in> set ring0"
    using assms(1) by (simp_all add: elemAt_def)
  have "polygonSeed ring0 pt (nearestLookup pt (Polygon (ring0 # holes))) =
      (Some (ring0 ! idx), Some (ring0 ! idx))
    \<or> polygonSeed ring0 pt (nearestLookup pt (Polygon (ring0 # holes))) =
      (Some (ring0 ! idx), Some (ring0 ! 0))"
    unfolding polygonSeed_def Let_def idx_def [symmetric]
    by (simp add: at_idx at_0 split: option.splits)
  then obtain r l where seeds:
    "polygonSeed ring0 pt (nearestLookup pt (Polygon (ring0 # holes))) = (Some r, Some l)"
    and r: "r \<in> set ring0" and l: "l \<in> set ring0"
    using in_idx in_0 by blast
  show ?thesis
    using processPolygon_member [of ring0 pt "isLeft (hd ring0) (last ring0) pt" r l] r l
    by (auto simp: polygonTangents_def Let_def elemAt_0 [of "_ # _"] seeds
        eprevSeed_nonempty [OF assms(1)])
qed

lemma polygon_without_holes_index:
  assumes "ring0 \<noteq> []"
  shows "nearestPtIndexOf (nearestLookup pt (Polygon [ring0])) < length ring0"
proof (cases "nearestLookup pt (Polygon [ring0])")
  case None
  then show ?thesis
    using assms by (simp add: nearestPtIndexOf_def)
next
  case (Some n)
  then have "nearestPoint pt ring0 = Some n"
    by (simp add: nearestLookup_inside explode_def split: if_splits)
  then show ?thesis
    using nearestPoint_contract [of pt ring0 n] Some by (simp add: nearestPtIndexOf_def)
qed

lemma innerLoop_bound:
  assumes "innerLoop len idx i2 cv vc = (cv', vc', found)" and "i2 < len \<or> cv < len"
  shows "cv' < len"
  using assms
proof (induction len idx i2 cv vc rule: innerLoop.induct)
  case (1 len idx i2 cv vc)
  show ?case
  proof (cases "i2 < len")
    case True
    show ?thesis
    proof (cases "vc = idx")
      case found: True
      then show ?thesis
        using "1.prems"(1) True by (simp add: innerLoop.simps [of len idx i2])
    next
      case False
      then have "innerLoop len idx (i2 + 1) i2 (vc + 1) = (cv', vc', found)"
        using "1.prems"(1) True by (simp add: innerLoop.simps [of len idx i2])
      then show ?thesis
        using "1.IH" [OF True False] True by simp
    qed
  next
    case False
    then show ?thesis
      using "1.prems" by (simp add: innerLoop.simps [of len idx i2])
  qed
qed

lemma outerLoop_bound:
  assumes "outerLoop rings idx i cf cv vc = (cf', cv')"
    and "\<forall>ring\<in>set rings. ring \<noteq> []"
    and "i < length rings \<or> (cf < length rings \<and> cv < length (rings ! cf))"
  shows "cf' < length rings \<and> cv' < length (rings ! cf')"
  using assms(1,3)
proof (induction "length rings - i" arbitrary: i cf cv vc)
  case 0
  then show ?case
    by (simp add: outerLoop.simps [of rings idx i])
next
  case (Suc k)
  then have i: "i < length rings" and k: "k = length rings - (i + 1)"
    by simp_all
  obtain cv1 vc1 found where inner:
    "innerLoop (length (rings ! i)) idx 0 cv vc = (cv1, vc1, found)"
    by (cases "innerLoop (length (rings ! i)) idx 0 cv vc") auto
  have "rings ! i \<noteq> []"
    using assms(2) i by simp
  then have cv1: "cv1 < length (rings ! i)"
    using innerLoop_bound [OF inner] by simp
  show ?case
  proof (cases found)
    case True
    then show ?thesis
      using Suc.prems(1) i inner cv1 by (simp add: outerLoop.simps [of rings idx i])
  next
    case False
    then have "outerLoop rings idx (i + 1) i cv1 vc1 = (cf', cv')"
      using Suc.prems(1) i inner by (simp add: outerLoop.simps [of rings idx i])
    then show ?thesis
      using Suc.hyps(1) [OF k, of i cv1 vc1] i cv1 by simp
  qed
qed

lemma multiPolygonSeed_vertex:
  assumes "rings \<noteq> []" and "\<forall>ring\<in>set rings. ring \<noteq> []"
  shows "\<exists>v. multiPolygonSeed rings idx = Inr (Some v) \<and> v \<in> set (concat rings)"
proof -
  obtain cf cv where loop: "outerLoop rings idx 0 0 0 0 = (cf, cv)"
    by (cases "outerLoop rings idx 0 0 0 0") auto
  have "cf < length rings \<and> cv < length (rings ! cf)"
    using outerLoop_bound [OF loop assms(2)] assms(1) by simp
  then show ?thesis
    by (auto simp: multiPolygonSeed_def loop elemAt_def intro!: bexI [of _ "rings ! cf"])
qed

lemma forEach_processPolygon_member:
  assumes "\<forall>poly\<in>set polys. poly \<noteq> [] \<and> hd poly \<noteq> []"
  shows "\<exists>r' l'. forEach_processPolygon polys pt e (Some r, Some l) = Inr (Some r', Some l')
     \<and> r' \<in> insert r (set (concat (map concat polys)))
     \<and> l' \<in> insert l (set (concat (map concat polys)))"
  using assms
proof (induction polys arbitrary: r l)
  case Nil
  then show ?case by simp
next
  case (Cons poly polys)
  then obtain outer holes where poly: "poly = outer # holes"
    by (cases poly) auto
  obtain r1 l1 where sweep: "processPolygon outer pt e (Some r) (Some l) = Inr (Some r1, Some l1)"
    and r1: "r1 \<in> insert r (set outer)" and l1: "l1 \<in> insert l (set outer)"
    using processPolygon_member [of outer pt e r l] by blast
  have "\<forall>poly\<in>set polys. poly \<noteq> [] \<and> hd poly \<noteq> []"
    using Cons.prems by simp
  from Cons.IH [OF this, of r1 l1] obtain r' l' where rest:
    "forEach_processPolygon polys pt e (Some r1, Some l1) = Inr (Some r', Some l')"
    and r': "r' \<in> insert r1 (set (concat (map concat polys)))"
    and l': "l' \<in> insert l1 (set (concat (map concat polys)))"
    by blast
  show ?case
    using sweep rest r1 l1 r' l' by (auto simp: poly elemAt_0)
qed

lemma multipolygon_tangents_are_vertices:
  assumes "polys \<noteq> []" and "\<forall>poly\<in>set polys. poly \<noteq> [] \<and> hd poly \<noteq> []"
    and "\<forall>ring\<in>set (hd polys). ring \<noteq> []"
  shows "\<exists>r l. polygonTangents pt (MultiPolygon polys) = Inr (Some r, Some l)
     \<and> r \<in> set (explode (MultiPolygon polys)) \<and> l \<in> set (explode (MultiPolygon polys))"
proof -
  obtain poly0 rest where polys: "polys = poly0 # rest"
    using assms(1) by (cases polys) auto
  obtain ring0 holes0 where poly0: "poly0 = ring0 # holes0" and ring0: "ring0 \<noteq> []"
    using assms(2) polys by (cases poly0) auto
  define idx where "idx = nearestPtIndexOf (nearestLookup pt (MultiPolygon polys))"
  obtain v where seed: "multiPolygonSeed poly0 idx = Inr (Some v)"
    and v: "v \<in> set (concat poly0)"
    using multiPolygonSeed_vertex [of poly0 idx] assms(3) polys poly0 by auto
  obtain r l where sweeps: "forEach_processPolygon polys pt (isLeft (hd ring0) (last ring0) pt)
        (Some v, Some v) = Inr (Some r, Some l)"
    and r: "r \<in> insert v (set (concat (map concat polys)))"
    and l: "l \<in> insert v (set (concat (map concat polys)))"
    using forEach_processPolygon_member [OF assms(2), of pt _ v v] by blast
  have "polygonTangents pt (MultiPolygon polys) = Inr (Some r, Some l)"
    unfolding polygonTangents_def Let_def idx_def [symmetric]
    using seed sweeps
    by (simp add: polys poly0 elemAt_0 [of "_ # _"] eprevSeed_nonempty [OF ring0])
  moreover have "v \<in> set (concat (map concat polys))"
    using v by (auto simp: polys)
  ultimately show ?thesis
    using r l by (auto simp: explode_def)
qed

section \<open>The scenarios, evaluated\<close>

text \<open>
  C8: for the square (0,0), (4,0), (4,4), (0,4) closed by (0,0) and the reference point
  (8,2), outside the bounding box, \<open>polygonTangents\<close> returns the right tangent (4,4) and
  the left tangent (4,0).
\<close>

theorem square_from_outside:
  "nearestLookup (8, 2) (Polygon [square]) = None
   \<and> polygonTangents (8, 2) (Polygon [square]) = Inr (Some (4, 4), Some (4, 0))"
  by (simp add: square_def resolver_defs sweep_defs)

text \<open>
  C10: there is a Polygon with a hole and a reference point strictly inside its bounding
  box such that the nearest vertex of the flattened vertex list lies in the hole, at a
  flattened index that is at least the length of the outer ring; the Polygon branch still
  indexes the outer ring with it, so both seeds are \<open>undefined\<close> and the result is not a
  pair of vertices (the sweep throws on the \<open>undefined\<close> seed).
\<close>

theorem hole_vertex_seed_out_of_range:
  "\<exists>ring0 holes pt n.
     holes \<noteq> [] \<and> strictlyInsideBbox pt (Polygon (ring0 # holes))
     \<and> nearestLookup pt (Polygon (ring0 # holes)) = Some n
     \<and> explode (Polygon (ring0 # holes)) ! featureIndex n = coordinates n
     \<and> coordinates n \<in> set (concat holes) \<and> coordinates n \<notin> set ring0
     \<and> length ring0 \<le> featureIndex n
     \<and> snd (coordinates n) < snd pt
     \<and> polygonSeed ring0 pt (Some n) = (None, None)
     \<and> polygonTangents pt (Polygon (ring0 # holes)) = Inl TypeError"
proof -
  let ?ring0 = "[(0, 0), (10, 0), (10, 10), (0, 10), (0, 0)] :: Position list"
  let ?hole = "[(4, 4), (4, 7), (7, 7), (7, 4), (4, 4)] :: Position list"
  let ?n = "\<lparr>featureIndex = 5, coordinates = (4, 4)\<rparr> :: nearest"
  have "[?hole] \<noteq> [] \<and> strictlyInsideBbox (5, 5) (Polygon (?ring0 # [?hole]))
     \<and> nearestLookup (5, 5) (Polygon (?ring0 # [?hole])) = Some ?n
     \<and> explode (Polygon (?ring0 # [?hole])) ! featureIndex ?n = coordinates ?n
     \<and> coordinates ?n \<in> set (concat [?hole]) \<and> coordinates ?n \<notin> set ?ring0
     \<and> length ?ring0 \<le> featureIndex ?n
     \<and> snd (coordinates ?n) < snd ((5, 5) :: Position)
     \<and> polygonSeed ?ring0 (5, 5) (Some ?n) = (None, None)
     \<and> polygonTangents (5, 5) (Polygon (?ring0 # [?hole])) = Inl TypeError"
    by (simp add: strictlyInsideBbox_def resolver_defs sweep_defs)
  then show ?thesis by blast
qed

text \<open>
  C1, at a Polygon with a hole: the reference point (5,5) lies in the hole, the nearest
  vertex is the hole's (4,4) at the flattened index 5, and the outer ring has the indices
  0 to 4 only. With the outer ring wound clockwise the sweep never compares a seed, and
  \<open>polygonTangents\<close> returns \<open>undefined\<close> for both tangents: not vertices of the
  geometry.
\<close>

theorem hole_vertex_result_undefined:
  "nearestLookup (5, 5) holedPolygonCW = Some \<lparr>featureIndex = 5, coordinates = (4, 4)\<rparr>
   \<and> polygonTangents (5, 5) holedPolygonCW = Inr (None, None)"
  by (simp add: holedPolygonCW_def resolver_defs sweep_defs)

text \<open>
  C3, at a MultiPolygon of two disjoint squares and the reference point (9,9), whose
  nearest vertex is (10,10) of the second square, at the flattened index 5: the loops walk
  the rings of the first polygon only, run out of them at its last vertex, and seed both
  tangents with (0,0), a vertex of the first square and not of the second.
\<close>

theorem two_squares_seed_in_first:
  "nearestLookup (9, 9) twoSquares = Some \<lparr>featureIndex = 5, coordinates = (10, 10)\<rparr>
   \<and> outerLoop [[(0, 0), (4, 0), (4, 4), (0, 4), (0, 0)]] 5 0 0 0 0 = (0, 4)
   \<and> multiPolygonSeed [[(0, 0), (4, 0), (4, 4), (0, 4), (0, 0)]] 5 = Inr (Some (0, 0))
   \<and> (0, 0) \<notin> set [(10, 10), (14, 10), (14, 14), (10, 14), (10, 10) :: Position]
   \<and> polygonTangents (9, 9) twoSquares = Inr (Some (0, 4), Some (4, 0))"
  by (simp add: twoSquares_def resolver_defs sweep_defs outerLoop.simps innerLoop.simps)

section \<open>Reflection across the x-axis\<close>





























subsection \<open>Closed rings seen from outside: the tangents are the angular extremes\<close>

text \<open>
  Seen from a point strictly outside the bounding box, the vertices lie in an open
  half-plane, and the orientation predicate orders them as a real-valued key (a slope)
  does. The sweep of a closed ring from the seed orientation zero then returns the vertex
  of least key as the right tangent and the vertex of greatest key as the left tangent,
  whatever the orientations of the edges in between; the reflection reverses the order.
\<close>

lemma isLeft_cyclic: "isLeft a b c = isLeft c a b"
  by (simp add: isLeft_def algebra_simps)

lemma angularKey_pos:
  "angularKey pt k V \<Longrightarrow> a \<in> V \<Longrightarrow> b \<in> V \<Longrightarrow> (0 < isLeft a b pt) = (k a < k b)"
  by (simp add: angularKey_def isLeft_cyclic [of a b pt])

lemma angularKey_nonpos:
  "angularKey pt k V \<Longrightarrow> a \<in> V \<Longrightarrow> b \<in> V \<Longrightarrow> (isLeft a b pt \<le> 0) = (k b \<le> k a)"
  using angularKey_pos [of pt k V a b] by auto





































end
